theory Spec2Isabelle
  imports Main "HOL-Library.Word"
begin

section \<open>Data model of \<open>BLI_fixed_array_allocator.hpp\<close>\<close>

text \<open>
  \<open>uint\<close> is a 32-bit unsigned integer: arithmetic on it wraps modulo \<open>2 ^ 32\<close>.
  A \<open>void *\<close> is an address; \<open>nullptr\<close> is the address 0.
\<close>

type_synonym uint = "32 word"
type_synonym addr = nat

definition nullptr :: addr where
  "nullptr = 0"

text \<open>
  The conditions under which a call does not return normally.
  \<open>ProgrammingPrecondition\<close> is a failed \<open>BLI_assert\<close>; \<open>IndexOutOfBounds\<close> is an access
  past the end of a vector; \<open>InvalidFree\<close> is \<open>MEM_freeN\<close> on an address that is not a
  live block (a double free, or a pointer the heap never handed out).
  \<open>InvalidConfiguration\<close> is the condition the specification names for construction.
\<close>

datatype error =
    ProgrammingPrecondition
  | InvalidConfiguration
  | IndexOutOfBounds
  | InvalidFree

subsection \<open>The guarded heap\<close>

text \<open>
  Modelled from the spec: \<open>MEM_mallocN_aligned\<close> and \<open>MEM_freeN\<close> (the guarded allocator)
  are not among the sources. The heap is the list of its live blocks, each an address with
  its length in bytes, in the order of allocation. \<open>MEM_mallocN_aligned h len alignment\<close>
  hands out a block of exactly \<open>len\<close> bytes at the first multiple of \<open>alignment\<close> past the
  end of every live block (so the address is new, not null, and aligned); the allocation
  itself always succeeds. \<open>MEM_freeN\<close> releases the live block at the address and fails
  when there is none.
\<close>

type_synonym heap = "(addr \<times> nat) list"

definition heap_end :: "heap \<Rightarrow> nat" where
  "heap_end h = foldr (\<lambda>b m. max (fst b + snd b) m) h 0"

definition live :: "heap \<Rightarrow> addr list" where
  "live h = map fst h"

definition MEM_mallocN_aligned :: "heap \<Rightarrow> nat \<Rightarrow> nat \<Rightarrow> heap \<times> addr" where
  "MEM_mallocN_aligned h len alignment =
     (let ptr = alignment * (heap_end h div alignment + 1)
      in (h @ [(ptr, len)], ptr))"

definition MEM_freeN :: "heap \<Rightarrow> addr \<Rightarrow> error + heap" where
  "MEM_freeN h ptr =
     (if ptr \<in> set (live h) then Inr (filter (\<lambda>b. fst b \<noteq> ptr) h) else Inl InvalidFree)"

subsection \<open>SmallVector and SmallStack\<close>

text \<open>
  Modelled from the spec: \<open>SmallVector\<close> and \<open>SmallStack\<close> (\<open>BLI_small_stack.hpp\<close>) are not
  among the sources. A \<open>SmallVector\<close> is a growable ordered sequence, here a list whose
  \<open>size()\<close> is its exact number of elements; \<open>append\<close> adds one element at the end,
  \<open>append_n_times\<close> adds \<open>n\<close> copies of a value at the end, and indexing past the end is an
  error. A \<open>SmallStack\<close> is a last-in first-out pool, here a list with the top first.
\<close>

definition append_n_times :: "'a list \<Rightarrow> 'a \<Rightarrow> nat \<Rightarrow> 'a list" where
  "append_n_times xs v n = xs @ replicate n v"

definition push :: "'a list \<Rightarrow> 'a \<Rightarrow> 'a list" where
  "push stack v = v # stack"

definition pop :: "'a list \<Rightarrow> 'a \<times> 'a list" where
  "pop stack = (hd stack, tl stack)"

subsection \<open>FixedArrayAllocator\<close>

record FixedArrayAllocator =
  m_all_pointers :: "addr list"
  m_pointer_stacks :: "addr list list"
  m_array_length :: uint

text \<open>
  The constructor stores the array length and starts with no pointers and no lanes.
  It has no failing path: \<open>construct\<close> is the constructor seen as a fallible operation.
\<close>

definition FixedArrayAllocator_init :: "uint \<Rightarrow> FixedArrayAllocator" where
  "FixedArrayAllocator_init array_length =
     \<lparr>m_all_pointers = [], m_pointer_stacks = [], m_array_length = array_length\<rparr>"

definition construct :: "uint \<Rightarrow> error + FixedArrayAllocator" where
  "construct array_length = Inr (FixedArrayAllocator_init array_length)"

definition array_size :: "FixedArrayAllocator \<Rightarrow> uint" where
  "array_size a = m_array_length a"

text \<open>
  \<open>stack_for_element_size\<close> returns a reference to a lane of the (possibly grown) vector:
  the model returns the updated allocator and the index of the lane in it.
  \<open>index\<close> is computed in \<open>uint\<close>, as the source does. \<open>BLI_assert\<close> (a macro that is
  not among the sources) is taken as checked: a failed assertion stops the call with
  \<open>ProgrammingPrecondition\<close>. The final access \<open>m_pointer_stacks[index]\<close> stops with
  \<open>IndexOutOfBounds\<close> when the index is not below the size of the vector.
\<close>

definition stack_for_element_size ::
  "FixedArrayAllocator \<Rightarrow> uint \<Rightarrow> error + (FixedArrayAllocator \<times> nat)" where
  "stack_for_element_size a element_size =
     (if \<not> 0 < element_size then Inl ProgrammingPrecondition
      else
        let index = element_size - 1;
            a' = (if unat index \<ge> length (m_pointer_stacks a)
                  then a\<lparr>m_pointer_stacks :=
                          append_n_times (m_pointer_stacks a) []
                            (unat index - length (m_pointer_stacks a) + 1)\<rparr>
                  else a)
        in if unat index < length (m_pointer_stacks a') then Inr (a', unat index)
           else Inl IndexOutOfBounds)"

text \<open>
  \<open>allocate_array\<close> returns the heap, the allocator and the pointer. The length passed to
  \<open>MEM_mallocN_aligned\<close> is the \<open>uint\<close> product \<open>m_array_length * element_size\<close>.
\<close>

definition allocate_array ::
  "heap \<Rightarrow> FixedArrayAllocator \<Rightarrow> uint \<Rightarrow> error + (heap \<times> FixedArrayAllocator \<times> addr)" where
  "allocate_array h a element_size =
     (case stack_for_element_size a element_size of
        Inl e \<Rightarrow> Inl e
      | Inr (a1, i) \<Rightarrow>
          let stack = m_pointer_stacks a1 ! i in
          if length stack > 0 then
            (let (ptr, stack') = pop stack
             in Inr (h, a1\<lparr>m_pointer_stacks := (m_pointer_stacks a1)[i := stack']\<rparr>, ptr))
          else
            (let (h', ptr) = MEM_mallocN_aligned h (unat (m_array_length a1 * element_size)) 64
             in Inr (h', a1\<lparr>m_all_pointers := m_all_pointers a1 @ [ptr]\<rparr>, ptr)))"

definition deallocate_array ::
  "FixedArrayAllocator \<Rightarrow> addr \<Rightarrow> uint \<Rightarrow> error + FixedArrayAllocator" where
  "deallocate_array a ptr element_size =
     (case stack_for_element_size a element_size of
        Inl e \<Rightarrow> Inl e
      | Inr (a1, i) \<Rightarrow>
          Inr (a1\<lparr>m_pointer_stacks :=
                    (m_pointer_stacks a1)[i := push (m_pointer_stacks a1 ! i) ptr]\<rparr>))"

text \<open>The destructor: the loop over \<open>m_all_pointers\<close>, stopping at the first failed free.\<close>

fun free_all :: "heap \<Rightarrow> addr list \<Rightarrow> error + heap" where
  "free_all h [] = Inr h"
| "free_all h (ptr # ptrs) =
     (case MEM_freeN h ptr of Inl e \<Rightarrow> Inl e | Inr h' \<Rightarrow> free_all h' ptrs)"

definition FixedArrayAllocator_dtor :: "heap \<Rightarrow> FixedArrayAllocator \<Rightarrow> error + heap" where
  "FixedArrayAllocator_dtor h a = free_all h (m_all_pointers a)"

text \<open>
  The lane of an element size as an observer of the state: the free list at index
  \<open>element_size - 1\<close>, empty while the vector has not grown that far.
\<close>

definition lane :: "FixedArrayAllocator \<Rightarrow> uint \<Rightarrow> addr list" where
  "lane a element_size =
     (if unat (element_size - 1) < length (m_pointer_stacks a)
      then m_pointer_stacks a ! unat (element_size - 1) else [])"

subsection \<open>ScopedAllocation\<close>

text \<open>
  A \<open>ScopedAllocation\<close> refers to its allocator by reference. Allocators live in a store
  and the reference is the key of the allocator in it, so that a handle's destructor
  updates the allocator the handle was made from.
\<close>

type_synonym allocator_ref = nat
type_synonym allocator_store = "allocator_ref \<Rightarrow> FixedArrayAllocator"

record ScopedAllocation =
  m_allocator :: allocator_ref
  m_ptr :: addr
  m_element_size :: uint

definition ScopedAllocation_init :: "allocator_ref \<Rightarrow> addr \<Rightarrow> uint \<Rightarrow> ScopedAllocation" where
  "ScopedAllocation_init allocator ptr element_size =
     \<lparr>m_allocator = allocator, m_ptr = ptr, m_element_size = element_size\<rparr>"

text \<open>The move constructor: the new handle, and \<open>other\<close> as the move leaves it.\<close>

definition ScopedAllocation_move :: "ScopedAllocation \<Rightarrow> ScopedAllocation \<times> ScopedAllocation" where
  "ScopedAllocation_move other =
     (\<lparr>m_allocator = m_allocator other, m_ptr = m_ptr other,
       m_element_size = m_element_size other\<rparr>,
      other\<lparr>m_ptr := nullptr\<rparr>)"

definition ScopedAllocation_dtor ::
  "allocator_store \<Rightarrow> ScopedAllocation \<Rightarrow> error + allocator_store" where
  "ScopedAllocation_dtor st x =
     (if m_ptr x \<noteq> nullptr then
        (case deallocate_array (st (m_allocator x)) (m_ptr x) (m_element_size x) of
           Inl e \<Rightarrow> Inl e
         | Inr a' \<Rightarrow> Inr (st(m_allocator x := a')))
      else Inr st)"

text \<open>
  Move assignment of \<open>other\<close> onto a different handle \<open>this\<close>: the destructor of \<open>this\<close>
  runs, then \<open>this\<close> is constructed anew by the move constructor from \<open>other\<close>.
  The result is the store, the new \<open>this\<close> and \<open>other\<close> as the move leaves it.
\<close>

definition ScopedAllocation_move_assign ::
  "allocator_store \<Rightarrow> ScopedAllocation \<Rightarrow> ScopedAllocation \<Rightarrow>
     error + (allocator_store \<times> ScopedAllocation \<times> ScopedAllocation)" where
  "ScopedAllocation_move_assign st this other =
     (case ScopedAllocation_dtor st this of
        Inl e \<Rightarrow> Inl e
      | Inr st' \<Rightarrow> (let (this', other') = ScopedAllocation_move other in Inr (st', this', other')))"

definition allocate_array_scoped ::
  "heap \<Rightarrow> allocator_store \<Rightarrow> allocator_ref \<Rightarrow> uint \<Rightarrow>
     error + (heap \<times> allocator_store \<times> ScopedAllocation)" where
  "allocate_array_scoped h st this element_size =
     (case allocate_array h (st this) element_size of
        Inl e \<Rightarrow> Inl e
      | Inr (h', a', ptr) \<Rightarrow>
          Inr (h', st(this := a'), ScopedAllocation_init this ptr element_size))"

subsection \<open>Sequences of calls\<close>

text \<open>
  A caller's use of one allocator over time: a sequence of \<open>allocate_array\<close> and
  \<open>deallocate_array\<close> calls, stopping at the first call that fails.
\<close>

datatype call = Allocate uint | Deallocate addr uint

fun call_size :: "call \<Rightarrow> uint" where
  "call_size (Allocate s) = s"
| "call_size (Deallocate p s) = s"

fun run_call :: "heap \<times> FixedArrayAllocator \<Rightarrow> call \<Rightarrow> error + (heap \<times> FixedArrayAllocator)" where
  "run_call (h, a) (Allocate s) =
     (case allocate_array h a s of Inl e \<Rightarrow> Inl e | Inr (h', a', ptr) \<Rightarrow> Inr (h', a'))"
| "run_call (h, a) (Deallocate p s) =
     (case deallocate_array a p s of Inl e \<Rightarrow> Inl e | Inr a' \<Rightarrow> Inr (h, a'))"

fun run_calls ::
  "heap \<times> FixedArrayAllocator \<Rightarrow> call list \<Rightarrow> error + (heap \<times> FixedArrayAllocator)" where
  "run_calls st [] = Inr st"
| "run_calls st (c # cs) =
     (case run_call st c of Inl e \<Rightarrow> Inl e | Inr st' \<Rightarrow> run_calls st' cs)"

text \<open>
  The caller's obligation of the specification: every \<open>deallocate_array\<close> call passes a
  buffer together with the element size it was allocated under. \<open>paired st out cs\<close> holds
  when the calls \<open>cs\<close>, run from the state \<open>st\<close>, keep it: \<open>out\<close> lists the buffers that
  are checked out, each with the element size of the \<open>allocate_array\<close> call that returned
  it, and every \<open>deallocate_array\<close> call returns one of them under that size. A call
  that fails ends the run.
\<close>

fun paired :: "heap \<times> FixedArrayAllocator \<Rightarrow> (addr \<times> uint) list \<Rightarrow> call list \<Rightarrow> bool" where
  "paired st out [] = True"
| "paired (h, a) out (Allocate s # cs) =
     (case allocate_array h a s of
        Inl e \<Rightarrow> True
      | Inr (h', a', ptr) \<Rightarrow> paired (h', a') ((ptr, s) # out) cs)"
| "paired (h, a) out (Deallocate p s # cs) =
     ((p, s) \<in> set out \<and>
      (case deallocate_array a p s of
         Inl e \<Rightarrow> True
       | Inr a' \<Rightarrow> paired (h, a') (remove1 (p, s) out) cs))"

section \<open>Lane lookup\<close>

lemma unat_index: "0 < (s::uint) \<Longrightarrow> unat (s - 1) = unat s - 1"
  by (simp add: unat_minus_one word_gt_0)

lemma unat_index_Suc: "0 < (s::uint) \<Longrightarrow> Suc (unat (s - 1)) = unat s"
  by (simp add: unat_index unat_gt_0 word_gt_0)

lemma stack_for_element_size_grow:
  assumes "0 < s" and "length (m_pointer_stacks a) \<le> unat (s - 1)"
  shows "stack_for_element_size a s =
           Inr (a\<lparr>m_pointer_stacks := m_pointer_stacks a @
                     replicate (unat s - length (m_pointer_stacks a)) []\<rparr>, unat (s - 1))"
proof -
  have "unat (s - 1) - length (m_pointer_stacks a) + 1 = unat s - length (m_pointer_stacks a)"
    using assms unat_index_Suc [of s] by arith
  moreover have "unat (s - 1) < length (m_pointer_stacks a) + (unat s - length (m_pointer_stacks a))"
    using assms unat_index_Suc [of s] by arith
  ultimately show ?thesis
    using assms by (simp add: stack_for_element_size_def append_n_times_def Let_def)
qed

lemma stack_for_element_size_keep:
  assumes "0 < s" and "unat (s - 1) < length (m_pointer_stacks a)"
  shows "stack_for_element_size a s = Inr (a, unat (s - 1))"
  using assms by (simp add: stack_for_element_size_def Let_def)

lemma stack_for_element_size_zero:
  "stack_for_element_size a 0 = Inl ProgrammingPrecondition"
  by (simp add: stack_for_element_size_def)

section \<open>Closed forms of the operations\<close>

lemma sfe_eq:
  assumes "0 < s"
  shows "stack_for_element_size a s =
           Inr (a\<lparr>m_pointer_stacks := m_pointer_stacks a @
                     replicate (unat s - length (m_pointer_stacks a)) []\<rparr>, unat s - 1)"
proof (cases "length (m_pointer_stacks a) \<le> unat (s - 1)")
  case True
  then show ?thesis
    using stack_for_element_size_grow [OF assms True] assms by (simp add: unat_index)
next
  case False
  then have "unat s - length (m_pointer_stacks a) = 0"
    using assms unat_index_Suc [of s] by arith
  then show ?thesis
    using stack_for_element_size_keep [of s a] assms False by (simp add: unat_index)
qed

lemma nth_grown:
  "j < length xs + n \<Longrightarrow> (xs @ replicate n []) ! j = (if j < length xs then xs ! j else [])"
  by (simp add: nth_append)

lemma lane_grown:
  "lane (a\<lparr>m_pointer_stacks := m_pointer_stacks a @ replicate n []\<rparr>) t = lane a t"
  by (simp add: lane_def nth_append)

lemma index_inj: "(t::uint) \<noteq> s \<Longrightarrow> unat (t - 1) \<noteq> unat (s - 1)"
proof
  assume ne: "t \<noteq> s" and eq: "unat (t - 1) = unat (s - 1)"
  from eq have "t - 1 = s - 1" by (simp add: word_unat_eq_iff)
  then have "t = s" by simp
  with ne show False by simp
qed

lemma index_in_grown: "0 < (s::uint) \<Longrightarrow> unat s - 1 < length xs + (unat s - length xs)"
  using unat_index_Suc [of s] by arith

lemma deallocate_array_eq:
  assumes "0 < s"
  shows "deallocate_array a p s =
     Inr (a\<lparr>m_pointer_stacks :=
             (m_pointer_stacks a @ replicate (unat s - length (m_pointer_stacks a)) [])
               [unat s - 1 := p # lane a s]\<rparr>)"
  using assms index_in_grown [OF assms, of "m_pointer_stacks a"]
  by (simp add: deallocate_array_def sfe_eq push_def lane_def unat_index nth_append)

lemma allocate_array_pop:
  assumes "0 < s" and "lane a s = p # rest"
  shows "allocate_array h a s =
     Inr (h, a\<lparr>m_pointer_stacks :=
             (m_pointer_stacks a @ replicate (unat s - length (m_pointer_stacks a)) [])
               [unat s - 1 := rest]\<rparr>, p)"
proof -
  have lt: "unat s - 1 < length (m_pointer_stacks a)"
    using assms by (simp add: lane_def unat_index split: if_splits)
  then have "m_pointer_stacks a ! (unat s - 1) = p # rest"
    using assms by (simp add: lane_def unat_index)
  then show ?thesis
    using assms(1) lt
    by (simp add: allocate_array_def sfe_eq pop_def nth_append)
qed

lemma allocate_array_fresh:
  assumes "0 < s" and "lane a s = []"
  shows "allocate_array h a s =
     Inr (h @ [(64 * (heap_end h div 64 + 1), unat (m_array_length a * s))],
          a\<lparr>m_pointer_stacks :=
               m_pointer_stacks a @ replicate (unat s - length (m_pointer_stacks a)) [],
             m_all_pointers := m_all_pointers a @ [64 * (heap_end h div 64 + 1)]\<rparr>,
          64 * (heap_end h div 64 + 1))"
proof -
  have "(m_pointer_stacks a @ replicate (unat s - length (m_pointer_stacks a)) []) ! (unat s - 1) = []"
    using assms index_in_grown [OF assms(1), of "m_pointer_stacks a"]
    by (simp add: lane_def unat_index nth_append split: if_splits)
  then show ?thesis
    using assms(1)
    by (simp add: allocate_array_def sfe_eq MEM_mallocN_aligned_def Let_def)
qed

lemma lane_grown_update_same:
  assumes "0 < s"
  shows "lane (a\<lparr>m_pointer_stacks :=
            (m_pointer_stacks a @ replicate (unat s - length (m_pointer_stacks a)) [])
              [unat s - 1 := v]\<rparr>) s = v"
  using index_in_grown [OF assms, of "m_pointer_stacks a"] assms
  by (simp add: lane_def unat_index)

lemma lane_grown_update_other:
  assumes "0 < s" and "t \<noteq> s"
  shows "lane (a\<lparr>m_pointer_stacks := (m_pointer_stacks a @ replicate n []) [unat s - 1 := v]\<rparr>) t
           = lane a t"
proof -
  have ne: "unat (t - 1) \<noteq> unat s - 1"
    using index_inj [OF assms(2)] assms(1) by (simp add: unat_index)
  show ?thesis
    unfolding lane_def using ne by (simp add: nth_append)
qed

lemma deallocate_array_lane:
  assumes "0 < s"
  shows "\<exists>a2. deallocate_array a p s = Inr a2
           \<and> lane a2 s = p # lane a s
           \<and> (\<forall>t. t \<noteq> s \<longrightarrow> lane a2 t = lane a t)
           \<and> m_all_pointers a2 = m_all_pointers a
           \<and> m_array_length a2 = m_array_length a"
  unfolding deallocate_array_eq [OF assms]
  using lane_grown_update_same [OF assms] lane_grown_update_other [OF assms]
  by simp

lemma allocate_array_pop_lane:
  assumes "0 < s" and "lane a s = p # rest"
  shows "\<exists>a2. allocate_array h a s = Inr (h, a2, p)
           \<and> lane a2 s = rest
           \<and> (\<forall>t. t \<noteq> s \<longrightarrow> lane a2 t = lane a t)
           \<and> m_all_pointers a2 = m_all_pointers a
           \<and> m_array_length a2 = m_array_length a"
  unfolding allocate_array_pop [OF assms]
  using lane_grown_update_same [OF assms(1)] lane_grown_update_other [OF assms(1)]
  by simp

lemma allocate_array_fresh_lane:
  assumes "0 < s" and "lane a s = []"
  shows "\<exists>a2. allocate_array h a s =
                 Inr (h @ [(64 * (heap_end h div 64 + 1), unat (m_array_length a * s))], a2,
                      64 * (heap_end h div 64 + 1))
           \<and> (\<forall>t. lane a2 t = lane a t)
           \<and> m_all_pointers a2 = m_all_pointers a @ [64 * (heap_end h div 64 + 1)]
           \<and> m_array_length a2 = m_array_length a"
  using assms by (simp add: allocate_array_fresh lane_def nth_append)

lemma allocate_array_Inr:
  assumes "0 < s"
  shows "\<exists>h1 a1 buf. allocate_array h a s = Inr (h1, a1, buf) \<and> m_array_length a1 = m_array_length a"
proof (cases "lane a s")
  case Nil
  then show ?thesis using allocate_array_fresh_lane [OF assms, of a h] by blast
next
  case (Cons p rest)
  then show ?thesis using allocate_array_pop_lane [OF assms, of a p rest h] by blast
qed

section \<open>Claims about the lane lookup\<close>



text \<open>
  C6 (element-size precondition). With element size 0 the lane lookup, \<open>allocate_array\<close>
  and \<open>deallocate_array\<close> stop at the assertion. For every element size \<open>s \<ge> 1\<close> the index
  \<open>s - 1\<close> does not wrap (its successor is \<open>s\<close>), the lane lookup returns that index and
  it is inside the grown lane vector, and neither \<open>allocate_array\<close> nor
  \<open>deallocate_array\<close> fails.
\<close>

theorem element_size_precondition:
  "(0 < s \<longrightarrow>
       Suc (unat (s - 1)) = unat s
     \<and> (\<exists>a'. stack_for_element_size a s = Inr (a', unat (s - 1))
            \<and> unat (s - 1) < length (m_pointer_stacks a'))
     \<and> (\<exists>r. allocate_array h a s = Inr r)
     \<and> (\<exists>a'. deallocate_array a p s = Inr a'))
   \<and> stack_for_element_size a 0 = Inl ProgrammingPrecondition
   \<and> allocate_array h a 0 = Inl ProgrammingPrecondition
   \<and> deallocate_array a p 0 = Inl ProgrammingPrecondition"
proof -
  have zero: "stack_for_element_size a 0 = Inl ProgrammingPrecondition
     \<and> allocate_array h a 0 = Inl ProgrammingPrecondition
     \<and> deallocate_array a p 0 = Inl ProgrammingPrecondition"
    by (simp add: allocate_array_def deallocate_array_def stack_for_element_size_zero)
  have pos: "Suc (unat (s - 1)) = unat s
     \<and> (\<exists>a'. stack_for_element_size a s = Inr (a', unat (s - 1))
            \<and> unat (s - 1) < length (m_pointer_stacks a'))
     \<and> (\<exists>r. allocate_array h a s = Inr r)
     \<and> (\<exists>a'. deallocate_array a p s = Inr a')" if s: "0 < s"
  proof -
    have "\<exists>a'. stack_for_element_size a s = Inr (a', unat (s - 1))
            \<and> unat (s - 1) < length (m_pointer_stacks a')"
      using s index_in_grown [OF s, of "m_pointer_stacks a"] by (simp add: sfe_eq unat_index)
    moreover have "\<exists>r. allocate_array h a s = Inr r"
      using allocate_array_Inr [OF s, of h a] by blast
    moreover have "\<exists>a'. deallocate_array a p s = Inr a'"
      using s by (simp add: deallocate_array_eq)
    ultimately show ?thesis using unat_index_Suc [OF s] by blast
  qed
  from zero pos show ?thesis by blast
qed

theorem element_size_precondition_witness:
  "0 < (8::uint) \<and> Suc (unat ((8::uint) - 1)) = unat (8::uint)
   \<and> (\<exists>a'. stack_for_element_size (FixedArrayAllocator_init 100) 8 = Inr (a', unat ((8::uint) - 1))
            \<and> unat ((8::uint) - 1) < length (m_pointer_stacks a'))
   \<and> (\<exists>r. allocate_array [] (FixedArrayAllocator_init 100) 8 = Inr r)
   \<and> (\<exists>a'. deallocate_array (FixedArrayAllocator_init 100) 64 8 = Inr a')"
proof -
  have pos: "0 < (8::uint)" by simp
  from element_size_precondition [of 8 "FixedArrayAllocator_init 100" "[]" 64] pos
  show ?thesis by blast
qed

section \<open>Reuse\<close>

text \<open>
  C1 (last-in first-out reuse). For every heap, allocator and element size \<open>s \<ge> 1\<close>:
  allocating, deallocating the returned buffer under \<open>s\<close> and allocating again returns the
  same buffer, without touching the heap; deallocating any pointer pushes it on top of
  the lane of \<open>s\<close> and the next allocation returns it and leaves the lane as it was;
  whenever the lane of \<open>s\<close> is not empty, \<open>allocate_array\<close> returns its top (the pointer
  deallocated last) and leaves the rest.
\<close>

theorem lifo_reuse:
  assumes "0 < s"
  shows "(\<exists>h1 a1 buf a2 a3.
             allocate_array h a s = Inr (h1, a1, buf)
           \<and> deallocate_array a1 buf s = Inr a2
           \<and> allocate_array h1 a2 s = Inr (h1, a3, buf))
       \<and> (\<forall>p. \<exists>a2 a3.
             deallocate_array a p s = Inr a2 \<and> lane a2 s = p # lane a s
           \<and> allocate_array h a2 s = Inr (h, a3, p) \<and> lane a3 s = lane a s)
       \<and> (\<forall>p rest. lane a s = p # rest \<longrightarrow>
             (\<exists>a2. allocate_array h a s = Inr (h, a2, p) \<and> lane a2 s = rest))"
proof -
  have round: "\<exists>a2 a3. deallocate_array b p s = Inr a2 \<and> lane a2 s = p # lane b s
                 \<and> allocate_array g a2 s = Inr (g, a3, p) \<and> lane a3 s = lane b s" for b p g
  proof -
    obtain a2 where d: "deallocate_array b p s = Inr a2" "lane a2 s = p # lane b s"
      using deallocate_array_lane [OF assms, of b p] by blast
    obtain a3 where "allocate_array g a2 s = Inr (g, a3, p)" "lane a3 s = lane b s"
      using allocate_array_pop_lane [OF assms d(2), of g] by blast
    with d show ?thesis by blast
  qed
  obtain h1 a1 buf where al: "allocate_array h a s = Inr (h1, a1, buf)"
    using allocate_array_Inr [OF assms, of h a] by blast
  have first: "\<exists>h1 a1 buf a2 a3.
             allocate_array h a s = Inr (h1, a1, buf)
           \<and> deallocate_array a1 buf s = Inr a2
           \<and> allocate_array h1 a2 s = Inr (h1, a3, buf)"
    using al round [of a1 buf h1] by blast
  have third: "\<forall>p rest. lane a s = p # rest \<longrightarrow>
             (\<exists>a2. allocate_array h a s = Inr (h, a2, p) \<and> lane a2 s = rest)"
    using allocate_array_pop_lane [OF assms, of a _ _ h] by blast
  from first round third show ?thesis by blast
qed

theorem lifo_reuse_witness:
  "0 < (4::uint)
   \<and> (\<exists>h1 a1 buf a2 a3.
         allocate_array [] (FixedArrayAllocator_init 100) 4 = Inr (h1, a1, buf)
       \<and> deallocate_array a1 buf 4 = Inr a2
       \<and> allocate_array h1 a2 4 = Inr (h1, a3, buf))"
proof -
  have pos: "0 < (4::uint)" by simp
  from lifo_reuse [OF pos, of "[]" "FixedArrayAllocator_init 100"] pos show ?thesis by blast
qed

section \<open>The heap\<close>

lemma heap_end_ge: "b \<in> set h \<Longrightarrow> fst b + snd b \<le> heap_end h"
  unfolding heap_end_def by (induction h) auto

lemma fresh_past_end: "heap_end h < 64 * (heap_end h div 64 + 1)"
proof -
  have "heap_end h mod 64 < 64" by simp
  moreover have "heap_end h = 64 * (heap_end h div 64) + heap_end h mod 64" by simp
  ultimately show ?thesis by arith
qed

lemma fresh_not_live: "64 * (heap_end h div 64 + 1) \<notin> set (live h)"
proof
  assume "64 * (heap_end h div 64 + 1) \<in> set (live h)"
  then obtain b where b: "b \<in> set h" "fst b = 64 * (heap_end h div 64 + 1)"
    by (auto simp: live_def)
  from heap_end_ge [OF b(1)] b(2) fresh_past_end [of h] show False by arith
qed

lemma free_all_Inr:
  "free_all h ps = Inr h' \<Longrightarrow> h' = filter (\<lambda>b. fst b \<notin> set ps) h"
proof (induction ps arbitrary: h)
  case Nil
  then show ?case by simp
next
  case (Cons p ps)
  from Cons.prems obtain h1 where f: "MEM_freeN h p = Inr h1" and r: "free_all h1 ps = Inr h'"
    by (auto split: sum.splits)
  from f have h1: "h1 = filter (\<lambda>b. fst b \<noteq> p) h"
    by (auto simp: MEM_freeN_def split: if_splits)
  from Cons.IH [OF r] h1 show ?case
    by (simp add: conj_commute)
qed

lemma free_all_distinct:
  "distinct ps \<Longrightarrow> set ps \<subseteq> set (live h) \<Longrightarrow>
     free_all h ps = Inr (filter (\<lambda>b. fst b \<notin> set ps) h)"
proof (induction ps arbitrary: h)
  case Nil
  then show ?case by simp
next
  case (Cons p ps)
  let ?h1 = "filter (\<lambda>b. fst b \<noteq> p) h"
  have f: "MEM_freeN h p = Inr ?h1"
    using Cons.prems by (simp add: MEM_freeN_def)
  have "set ps \<subseteq> set (live ?h1)"
  proof
    fix x assume x: "x \<in> set ps"
    with Cons.prems have "x \<noteq> p" and "x \<in> set (live h)" by auto
    then obtain b where "b \<in> set h" "fst b = x" by (auto simp: live_def)
    with \<open>x \<noteq> p\<close> show "x \<in> set (live ?h1)" by (force simp: live_def)
  qed
  with Cons.IH [of ?h1] Cons.prems have "free_all ?h1 ps = Inr (filter (\<lambda>b. fst b \<notin> set ps) ?h1)"
    by simp
  with f show ?case by (simp add: conj_commute)
qed

section \<open>Fresh blocks\<close>

text \<open>
  The block that \<open>allocate_array\<close> takes from the heap when the lane is empty: its length
  is the product of the array length and the element size reduced modulo \<open>2 ^ 32\<close>, its
  address is a multiple of 64, not null and not the address of a live block.
\<close>

lemma allocate_array_fresh_capacity:
  assumes "0 < s" and "lane a s = []"
  shows "\<exists>a' p. allocate_array h a s
                  = Inr (h @ [(p, (unat (m_array_length a) * unat s) mod 2 ^ 32)], a', p)
           \<and> p mod 64 = 0 \<and> p \<noteq> nullptr \<and> p \<notin> set (live h)
           \<and> m_all_pointers a' = m_all_pointers a @ [p]"
proof -
  let ?p = "64 * (heap_end h div 64 + 1)"
  have len: "unat (m_array_length a * s) = (unat (m_array_length a) * unat s) mod 2 ^ 32"
    by (simp add: unat_word_ariths)
  obtain a' where a': "allocate_array h a s = Inr (h @ [(?p, unat (m_array_length a * s))], a', ?p)"
      "m_all_pointers a' = m_all_pointers a @ [?p]"
    using allocate_array_fresh_lane [OF assms, of h] by blast
  have al: "?p mod 64 = 0" and nn: "?p \<noteq> nullptr"
    by (simp_all add: nullptr_def)
  show ?thesis
    by (rule exI [of _ a'], rule exI [of _ ?p])
       (intro conjI a'(1) [unfolded len] al nn fresh_not_live a'(2))
qed

text \<open>
  C2 (capacity of a fresh block). With array length \<open>2 ^ 30\<close> and element size 4 the exact
  product is \<open>2 ^ 32\<close> bytes; the \<open>uint\<close> product wraps to 0, and the fresh block that
  \<open>allocate_array\<close> returns (at the 64-byte aligned address 64) has a capacity of 0 bytes.
\<close>

theorem fresh_capacity_wraps:
  "allocate_array [] (FixedArrayAllocator_init 1073741824) 4
     = Inr ([(64, 0)],
            \<lparr>m_all_pointers = [64], m_pointer_stacks = [[], [], [], []],
             m_array_length = 1073741824\<rparr>, 64)
   \<and> unat (1073741824 :: uint) * unat (4 :: uint) = 4294967296"
proof
  show "allocate_array [] (FixedArrayAllocator_init 1073741824) 4
     = Inr ([(64, 0)],
            \<lparr>m_all_pointers = [64], m_pointer_stacks = [[], [], [], []],
             m_array_length = 1073741824\<rparr>, 64)"
    by code_simp
  show "unat (1073741824 :: uint) * unat (4 :: uint) = 4294967296"
    by simp
qed

text \<open>
  The example of the specification: with array length 100, \<open>allocate_array 4\<close> takes a
  block of 400 bytes from the heap; after it is deallocated, \<open>allocate_array 4\<close> returns
  the same pointer and takes nothing from the heap; \<open>allocate_array 8\<close> then takes a new
  block of 800 bytes.
\<close>

lemma example_scenario:
  "allocate_array [] (FixedArrayAllocator_init 100) 4
     = Inr ([(64, 400)],
            \<lparr>m_all_pointers = [64], m_pointer_stacks = [[], [], [], []],
             m_array_length = 100\<rparr>, 64)
   \<and> deallocate_array
        \<lparr>m_all_pointers = [64], m_pointer_stacks = [[], [], [], []], m_array_length = 100\<rparr> 64 4
     = Inr \<lparr>m_all_pointers = [64], m_pointer_stacks = [[], [], [], [64]], m_array_length = 100\<rparr>
   \<and> allocate_array [(64, 400)]
        \<lparr>m_all_pointers = [64], m_pointer_stacks = [[], [], [], [64]], m_array_length = 100\<rparr> 4
     = Inr ([(64, 400)],
            \<lparr>m_all_pointers = [64], m_pointer_stacks = [[], [], [], []],
             m_array_length = 100\<rparr>, 64)
   \<and> allocate_array [(64, 400)]
        \<lparr>m_all_pointers = [64], m_pointer_stacks = [[], [], [], []], m_array_length = 100\<rparr> 8
     = Inr ([(64, 400), (512, 800)],
            \<lparr>m_all_pointers = [64, 512],
             m_pointer_stacks = [[], [], [], [], [], [], [], []],
             m_array_length = 100\<rparr>, 512)"
  by code_simp

section \<open>Deallocation\<close>

text \<open>
  C9 (frame of deallocation). For every pointer \<open>p\<close> and element size \<open>s \<ge> 1\<close>,
  \<open>deallocate_array\<close> succeeds and pushes \<open>p\<close> on the lane of \<open>s\<close>; every other lane is
  as before (the lanes that existed keep their contents in place, the lanes created by
  the growth of the vector are empty), and \<open>m_all_pointers\<close> and the array length are
  unchanged. The next \<open>allocate_array\<close> of that size returns \<open>p\<close> without registering it,
  the destructor does exactly what it would have done before the deallocation, and when
  \<open>p\<close> is not in \<open>m_all_pointers\<close> a destructor that completes leaves every live block at
  \<open>p\<close> live.
\<close>

theorem deallocate_frame:
  assumes "0 < s"
  shows "\<exists>a2. deallocate_array a p s = Inr a2
           \<and> lane a2 s = p # lane a s
           \<and> (\<forall>t. t \<noteq> s \<longrightarrow> lane a2 t = lane a t)
           \<and> (\<forall>i < length (m_pointer_stacks a).
                 i \<noteq> unat s - 1 \<longrightarrow> m_pointer_stacks a2 ! i = m_pointer_stacks a ! i)
           \<and> (\<forall>i < length (m_pointer_stacks a2).
                 length (m_pointer_stacks a) \<le> i \<longrightarrow> i \<noteq> unat s - 1 \<longrightarrow>
                 m_pointer_stacks a2 ! i = [])
           \<and> m_all_pointers a2 = m_all_pointers a
           \<and> m_array_length a2 = m_array_length a
           \<and> (\<exists>a3. allocate_array h a2 s = Inr (h, a3, p)
                  \<and> m_all_pointers a3 = m_all_pointers a)
           \<and> FixedArrayAllocator_dtor h' a2 = FixedArrayAllocator_dtor h' a
           \<and> (p \<notin> set (m_all_pointers a) \<longrightarrow>
                (\<forall>h1 h2. FixedArrayAllocator_dtor h1 a2 = Inr h2 \<longrightarrow>
                   (\<forall>b \<in> set h1. fst b = p \<longrightarrow> b \<in> set h2)))"
proof -
  let ?xs = "m_pointer_stacks a @ replicate (unat s - length (m_pointer_stacks a)) []"
  let ?a2 = "a\<lparr>m_pointer_stacks := ?xs[unat s - 1 := p # lane a s]\<rparr>"
  have d: "deallocate_array a p s = Inr ?a2"
    by (rule deallocate_array_eq [OF assms])
  have top: "lane ?a2 s = p # lane a s"
    by (rule lane_grown_update_same [OF assms])
  have others: "\<forall>t. t \<noteq> s \<longrightarrow> lane ?a2 t = lane a t"
    using lane_grown_update_other [OF assms] by simp
  have old: "\<forall>i < length (m_pointer_stacks a).
                 i \<noteq> unat s - 1 \<longrightarrow> m_pointer_stacks ?a2 ! i = m_pointer_stacks a ! i"
    by (simp add: nth_append)
  have new: "\<forall>i < length (m_pointer_stacks ?a2).
                 length (m_pointer_stacks a) \<le> i \<longrightarrow> i \<noteq> unat s - 1 \<longrightarrow>
                 m_pointer_stacks ?a2 ! i = []"
    by (simp add: nth_append)
  have mp: "m_all_pointers ?a2 = m_all_pointers a" and ml: "m_array_length ?a2 = m_array_length a"
    by simp_all
  have again: "\<exists>a3. allocate_array h ?a2 s = Inr (h, a3, p)
                  \<and> m_all_pointers a3 = m_all_pointers a"
    using allocate_array_pop_lane [OF assms top, of h] mp by auto
  have dtor: "FixedArrayAllocator_dtor h' ?a2 = FixedArrayAllocator_dtor h' a"
    by (simp add: FixedArrayAllocator_dtor_def)
  have kept: "p \<notin> set (m_all_pointers a) \<longrightarrow>
                (\<forall>h1 h2. FixedArrayAllocator_dtor h1 ?a2 = Inr h2 \<longrightarrow>
                   (\<forall>b \<in> set h1. fst b = p \<longrightarrow> b \<in> set h2))"
    using free_all_Inr by (fastforce simp: FixedArrayAllocator_dtor_def)
  show ?thesis
    by (rule exI [of _ ?a2]) (intro conjI d top others old new mp ml again dtor kept)
qed

theorem deallocate_frame_witness:
  "0 < (4::uint)
   \<and> (\<exists>a2. deallocate_array (FixedArrayAllocator_init 100) 4096 4 = Inr a2
          \<and> lane a2 4 = [4096]
          \<and> m_all_pointers a2 = []
          \<and> (\<exists>a3. allocate_array [(4096, 16)] a2 4 = Inr ([(4096, 16)], a3, 4096))
          \<and> (\<forall>h1 h2. FixedArrayAllocator_dtor h1 a2 = Inr h2 \<longrightarrow>
                   (\<forall>b \<in> set h1. fst b = 4096 \<longrightarrow> b \<in> set h2)))"
proof -
  have pos: "0 < (4::uint)" by simp
  have l: "lane (FixedArrayAllocator_init 100) 4 = []"
    by (simp add: lane_def FixedArrayAllocator_init_def)
  have m: "m_all_pointers (FixedArrayAllocator_init 100) = []"
    by (simp add: FixedArrayAllocator_init_def)
  from deallocate_frame [OF pos, of "FixedArrayAllocator_init 100" 4096 "[(4096, 16)]" "[]"]
  show ?thesis unfolding l m using pos by auto
qed

section \<open>Construction\<close>

text \<open>
  C5 (construction), as the code has it: construction succeeds for every array length
  \<open>n\<close>, zero included, and the new instance is bound to exactly \<open>n\<close> elements per array,
  with no pointers and no lanes.
\<close>

theorem construct_total:
  "construct n = Inr (FixedArrayAllocator_init n)
   \<and> array_size (FixedArrayAllocator_init n) = n
   \<and> m_all_pointers (FixedArrayAllocator_init n) = []
   \<and> m_pointer_stacks (FixedArrayAllocator_init n) = []"
  by (simp add: construct_def FixedArrayAllocator_init_def array_size_def)

text \<open>
  Construction with array length 0 returns an instance, not \<open>InvalidConfiguration\<close>.
\<close>

theorem construct_zero_counterexample:
  "construct 0 = Inr \<lparr>m_all_pointers = [], m_pointer_stacks = [], m_array_length = 0\<rparr>
   \<and> construct 0 \<noteq> Inl InvalidConfiguration"
  by (simp add: construct_def FixedArrayAllocator_init_def)

section \<open>Sequences of calls\<close>

lemma run_call_step:
  assumes "0 < call_size c"
  shows "\<exists>h' a' bs. run_call (h, a) c = Inr (h', a')
           \<and> h' = h @ bs \<and> m_all_pointers a' = m_all_pointers a @ map fst bs
           \<and> distinct (map fst bs) \<and> set (map fst bs) \<inter> set (live h) = {}
           \<and> m_array_length a' = m_array_length a
           \<and> (\<forall>t. set (lane a' t) \<subseteq> set (lane a t) \<union> {p. c = Deallocate p t})"
proof (cases c)
  case (Allocate s)
  with assms have s: "0 < s" by simp
  show ?thesis
  proof (cases "lane a s")
    case Nil
    obtain a2 where a2: "allocate_array h a s =
                 Inr (h @ [(64 * (heap_end h div 64 + 1), unat (m_array_length a * s))], a2,
                      64 * (heap_end h div 64 + 1))"
        "\<forall>t. lane a2 t = lane a t"
        "m_all_pointers a2 = m_all_pointers a @ [64 * (heap_end h div 64 + 1)]"
        "m_array_length a2 = m_array_length a"
      using allocate_array_fresh_lane [OF s Nil, of h] by blast
    show ?thesis
      apply (rule exI [of _ "h @ [(64 * (heap_end h div 64 + 1), unat (m_array_length a * s))]"])
      apply (rule exI [of _ a2])
      apply (rule exI [of _ "[(64 * (heap_end h div 64 + 1), unat (m_array_length a * s))]"])
      using a2 Allocate fresh_not_live [of h] by simp
  next
    case (Cons p rest)
    obtain a2 where a2: "allocate_array h a s = Inr (h, a2, p)"
        "lane a2 s = rest" "\<forall>t. t \<noteq> s \<longrightarrow> lane a2 t = lane a t"
        "m_all_pointers a2 = m_all_pointers a" "m_array_length a2 = m_array_length a"
      using allocate_array_pop_lane [OF s Cons, of h] by blast
    have sub: "\<forall>t. set (lane a2 t) \<subseteq> set (lane a t)"
    proof
      fix t show "set (lane a2 t) \<subseteq> set (lane a t)"
        using a2(2,3) Cons by (cases "t = s") auto
    qed
    show ?thesis
      apply (rule exI [of _ h])
      apply (rule exI [of _ a2])
      apply (rule exI [of _ "[]"])
      using a2 Allocate sub by auto
  qed
next
  case (Deallocate p s)
  with assms have s: "0 < s" by simp
  obtain a2 where a2: "deallocate_array a p s = Inr a2"
      "lane a2 s = p # lane a s" "\<forall>t. t \<noteq> s \<longrightarrow> lane a2 t = lane a t"
      "m_all_pointers a2 = m_all_pointers a" "m_array_length a2 = m_array_length a"
    using deallocate_array_lane [OF s, of a p] by blast
  have sub: "\<forall>t. set (lane a2 t) \<subseteq> set (lane a t) \<union> {q. Deallocate p s = Deallocate q t}"
  proof
    fix t show "set (lane a2 t) \<subseteq> set (lane a t) \<union> {q. Deallocate p s = Deallocate q t}"
      using a2(2,3) by (cases "t = s") auto
  qed
  show ?thesis
    apply (rule exI [of _ h])
    apply (rule exI [of _ a2])
    apply (rule exI [of _ "[]"])
    using a2 Deallocate sub by simp
qed

lemma run_calls_invariant:
  assumes "\<forall>c \<in> set cs. 0 < call_size c"
  shows "\<exists>h' a' bs. run_calls (h, a) cs = Inr (h', a')
           \<and> h' = h @ bs \<and> m_all_pointers a' = m_all_pointers a @ map fst bs
           \<and> distinct (map fst bs) \<and> set (map fst bs) \<inter> set (live h) = {}
           \<and> m_array_length a' = m_array_length a
           \<and> (\<forall>t. set (lane a' t) \<subseteq> set (lane a t) \<union> {p. Deallocate p t \<in> set cs})"
  using assms
proof (induction cs arbitrary: h a)
  case Nil
  show ?case
    by (rule exI [of _ h], rule exI [of _ a], rule exI [of _ "[]"]) simp
next
  case (Cons c cs)
  from Cons.prems have c: "0 < call_size c" and cs: "\<forall>c \<in> set cs. 0 < call_size c"
    by simp_all
  obtain h1 a1 bs1 where 1: "run_call (h, a) c = Inr (h1, a1)"
      "h1 = h @ bs1" "m_all_pointers a1 = m_all_pointers a @ map fst bs1"
      "distinct (map fst bs1)" "set (map fst bs1) \<inter> set (live h) = {}"
      "m_array_length a1 = m_array_length a"
      "\<forall>t. set (lane a1 t) \<subseteq> set (lane a t) \<union> {p. c = Deallocate p t}"
    using run_call_step [OF c, of h a] by blast
  obtain h2 a2 bs2 where 2: "run_calls (h1, a1) cs = Inr (h2, a2)"
      "h2 = h1 @ bs2" "m_all_pointers a2 = m_all_pointers a1 @ map fst bs2"
      "distinct (map fst bs2)" "set (map fst bs2) \<inter> set (live h1) = {}"
      "m_array_length a2 = m_array_length a1"
      "\<forall>t. set (lane a2 t) \<subseteq> set (lane a1 t) \<union> {p. Deallocate p t \<in> set cs}"
    using Cons.IH [OF cs, of h1 a1] by blast
  have run: "run_calls (h, a) (c # cs) = Inr (h2, a2)"
    using 1(1) 2(1) by simp
  have heap: "h2 = h @ (bs1 @ bs2)"
    using 1(2) 2(2) by simp
  have ptrs: "m_all_pointers a2 = m_all_pointers a @ map fst (bs1 @ bs2)"
    using 1(3) 2(3) by simp
  have live1: "set (live h1) = set (live h) \<union> set (map fst bs1)"
    using 1(2) by (simp add: live_def)
  have dist: "distinct (map fst (bs1 @ bs2))"
    using 1(4) 2(4,5) live1 by auto
  have disj: "set (map fst (bs1 @ bs2)) \<inter> set (live h) = {}"
    using 1(5) 2(5) live1 by auto
  have len: "m_array_length a2 = m_array_length a"
    using 1(6) 2(6) by simp
  have lanes: "\<forall>t. set (lane a2 t) \<subseteq> set (lane a t) \<union> {p. Deallocate p t \<in> set (c # cs)}"
  proof
    fix t
    from 1(7) 2(7) have "set (lane a1 t) \<subseteq> set (lane a t) \<union> {p. c = Deallocate p t}"
      and "set (lane a2 t) \<subseteq> set (lane a1 t) \<union> {p. Deallocate p t \<in> set cs}" by blast+
    then show "set (lane a2 t) \<subseteq> set (lane a t) \<union> {p. Deallocate p t \<in> set (c # cs)}"
      by auto
  qed
  show ?case
    by (rule exI [of _ h2], rule exI [of _ a2], rule exI [of _ "bs1 @ bs2"])
       (intro conjI run heap ptrs dist disj len lanes)
qed

lemma lane_init: "lane (FixedArrayAllocator_init n) t = []"
  by (simp add: lane_def FixedArrayAllocator_init_def)

text \<open>
  C4 (teardown). Start from any heap \<open>h0\<close> and a new allocator, and run any sequence of
  \<open>allocate_array\<close> and \<open>deallocate_array\<close> calls with element sizes \<open>\<ge> 1\<close>. The run
  succeeds; the heap is \<open>h0\<close> followed by the blocks taken from it since, and
  \<open>m_all_pointers\<close> lists the addresses of exactly these blocks, in order and without
  repetition (a pointer served from a lane is not registered again). The destructor
  then frees every one of them successfully, each free finding its block live, and
  leaves the heap exactly \<open>h0\<close>, whatever the lanes hold.
\<close>

theorem teardown_complete:
  assumes "\<forall>c \<in> set cs. 0 < call_size c"
  shows "\<exists>h a bs. run_calls (h0, FixedArrayAllocator_init n) cs = Inr (h, a)
           \<and> h = h0 @ bs
           \<and> m_all_pointers a = map fst bs
           \<and> distinct (m_all_pointers a)
           \<and> set (m_all_pointers a) \<inter> set (live h0) = {}
           \<and> set (m_all_pointers a) \<subseteq> set (live h)
           \<and> FixedArrayAllocator_dtor h a = Inr h0"
proof -
  obtain h a bs where r: "run_calls (h0, FixedArrayAllocator_init n) cs = Inr (h, a)"
      "h = h0 @ bs"
      "m_all_pointers a = m_all_pointers (FixedArrayAllocator_init n) @ map fst bs"
      "distinct (map fst bs)" "set (map fst bs) \<inter> set (live h0) = {}"
    using run_calls_invariant [OF assms, of h0 "FixedArrayAllocator_init n"] by blast
  have ptrs: "m_all_pointers a = map fst bs"
    using r(3) by (simp add: FixedArrayAllocator_init_def)
  have sub: "set (m_all_pointers a) \<subseteq> set (live h)"
    using ptrs r(2) by (auto simp: live_def)
  have keep0: "filter (\<lambda>b. fst b \<notin> set (map fst bs)) h0 = h0"
    using r(5) by (auto simp: live_def filter_id_conv)
  have drop1: "filter (\<lambda>b. fst b \<notin> set (map fst bs)) bs = []"
    by (auto simp: filter_empty_conv)
  have "free_all h (map fst bs) = Inr (filter (\<lambda>b. fst b \<notin> set (map fst bs)) h)"
    using free_all_distinct [OF r(4), of h] sub ptrs by simp
  then have dtor: "FixedArrayAllocator_dtor h a = Inr h0"
    using keep0 drop1 r(2) ptrs by (simp add: FixedArrayAllocator_dtor_def)
  show ?thesis
    apply (rule exI [of _ h], rule exI [of _ a], rule exI [of _ bs])
    using r(1,2,4,5) ptrs sub dtor by simp
qed

theorem teardown_complete_witness:
  "0 < call_size (Allocate 4) \<and> 0 < call_size (Deallocate 64 4) \<and> 0 < call_size (Allocate 8)
   \<and> (\<exists>h a. run_calls ([], FixedArrayAllocator_init 100)
                [Allocate 4, Deallocate 64 4, Allocate 4, Allocate 8] = Inr (h, a)
          \<and> distinct (m_all_pointers a)
          \<and> FixedArrayAllocator_dtor h a = Inr [])"
proof -
  have pre: "\<forall>c \<in> set [Allocate 4, Deallocate 64 4, Allocate 4, Allocate 8]. 0 < call_size c"
    by simp
  from teardown_complete [OF pre, of "[]" 100] show ?thesis by auto
qed

text \<open>
  Along a run that keeps the caller's obligation every buffer has one element size: the
  size it was first allocated under. \<open>cls\<close> records it. Buffers that are checked out and
  buffers in a lane have the size recorded for them, and every recorded buffer is a live
  block.
\<close>

lemma paired_invariant:
  assumes "\<forall>c \<in> set cs. 0 < call_size c"
    and "paired (h, a) out cs"
    and "\<forall>p s. (p, s) \<in> set out \<longrightarrow> cls p = Some s"
    and "\<forall>t. \<forall>p \<in> set (lane a t). cls p = Some t"
    and "dom cls \<subseteq> set (live h)"
  shows "\<exists>h' a' cls'. run_calls (h, a) cs = Inr (h', a')
           \<and> map_le cls cls'
           \<and> (\<forall>t. \<forall>p \<in> set (lane a' t). cls' p = Some t)
           \<and> dom cls' \<subseteq> set (live h')
           \<and> (\<forall>p s. Deallocate p s \<in> set cs \<longrightarrow> cls' p = Some s)"
  using assms
proof (induction cs arbitrary: h a out cls)
  case Nil
  show ?case
    by (rule exI [of _ h], rule exI [of _ a], rule exI [of _ cls]) (use Nil in simp)
next
  case (Cons c cs)
  from Cons.prems(1) have c: "0 < call_size c" and cs: "\<forall>c \<in> set cs. 0 < call_size c"
    by simp_all
  note outs = Cons.prems(3) and lanes = Cons.prems(4) and doms = Cons.prems(5)
  show ?case
  proof (cases c)
    case (Allocate s)
    with c have s: "0 < s" by simp
    show ?thesis
    proof (cases "lane a s")
      case Nil
      let ?p = "64 * (heap_end h div 64 + 1)"
      let ?h1 = "h @ [(?p, unat (m_array_length a * s))]"
      let ?cls1 = "cls(?p \<mapsto> s)"
      obtain a1 where a1: "allocate_array h a s = Inr (?h1, a1, ?p)"
          "\<forall>t. lane a1 t = lane a t"
        using allocate_array_fresh_lane [OF s Nil, of h] by blast
      have new: "?p \<notin> dom cls"
        using fresh_not_live [of h] doms by blast
      have p1: "paired (?h1, a1) ((?p, s) # out) cs"
        using Cons.prems(2) Allocate a1(1) by simp
      have o1: "\<forall>q t. (q, t) \<in> set ((?p, s) # out) \<longrightarrow> ?cls1 q = Some t"
        using outs new by auto
      have l1: "\<forall>t. \<forall>q \<in> set (lane a1 t). ?cls1 q = Some t"
        using lanes a1(2) new by auto
      have d1: "dom ?cls1 \<subseteq> set (live ?h1)"
        using doms by (auto simp: live_def)
      obtain h' a' cls' where r: "run_calls (?h1, a1) cs = Inr (h', a')"
          "map_le ?cls1 cls'"
          "\<forall>t. \<forall>p \<in> set (lane a' t). cls' p = Some t"
          "dom cls' \<subseteq> set (live h')"
          "\<forall>p s. Deallocate p s \<in> set cs \<longrightarrow> cls' p = Some s"
        using Cons.IH [OF cs p1 o1 l1 d1] by blast
      have run: "run_calls (h, a) (c # cs) = Inr (h', a')"
        using Allocate a1(1) r(1) by simp
      have "map_le cls ?cls1"
        using new by (auto simp: map_le_def)
      then have le: "map_le cls cls'"
        using r(2) by (rule map_le_trans)
      have ds: "\<forall>p s. Deallocate p s \<in> set (c # cs) \<longrightarrow> cls' p = Some s"
        using r(5) Allocate by simp
      show ?thesis
        by (rule exI [of _ h'], rule exI [of _ a'], rule exI [of _ cls'])
           (intro conjI run le r(3) r(4) ds)
    next
      case (Cons p rest)
      obtain a1 where a1: "allocate_array h a s = Inr (h, a1, p)"
          "lane a1 s = rest" "\<forall>t. t \<noteq> s \<longrightarrow> lane a1 t = lane a t"
        using allocate_array_pop_lane [OF s Cons, of h] by blast
      have cp: "cls p = Some s"
        using lanes Cons by auto
      have p1: "paired (h, a1) ((p, s) # out) cs"
        using Cons.prems(2) Allocate a1(1) by simp
      have o1: "\<forall>q t. (q, t) \<in> set ((p, s) # out) \<longrightarrow> cls q = Some t"
        using outs cp by auto
      have l1: "\<forall>t. \<forall>q \<in> set (lane a1 t). cls q = Some t"
      proof (intro allI ballI)
        fix t q assume q: "q \<in> set (lane a1 t)"
        show "cls q = Some t"
        proof (cases "t = s")
          case True
          with q a1(2) Cons have "q \<in> set (lane a s)" by simp
          with lanes True show ?thesis by blast
        next
          case False
          with q a1(3) have "q \<in> set (lane a t)" by simp
          with lanes show ?thesis by blast
        qed
      qed
      obtain h' a' cls' where r: "run_calls (h, a1) cs = Inr (h', a')"
          "map_le cls cls'"
          "\<forall>t. \<forall>p \<in> set (lane a' t). cls' p = Some t"
          "dom cls' \<subseteq> set (live h')"
          "\<forall>p s. Deallocate p s \<in> set cs \<longrightarrow> cls' p = Some s"
        using Cons.IH [OF cs p1 o1 l1 doms] by blast
      have run: "run_calls (h, a) (c # cs) = Inr (h', a')"
        using Allocate a1(1) r(1) by simp
      have ds: "\<forall>p s. Deallocate p s \<in> set (c # cs) \<longrightarrow> cls' p = Some s"
        using r(5) Allocate by simp
      show ?thesis
        by (rule exI [of _ h'], rule exI [of _ a'], rule exI [of _ cls'])
           (intro conjI run r(2) r(3) r(4) ds)
    qed
  next
    case (Deallocate p s)
    with c have s: "0 < s" by simp
    obtain a1 where a1: "deallocate_array a p s = Inr a1"
        "lane a1 s = p # lane a s" "\<forall>t. t \<noteq> s \<longrightarrow> lane a1 t = lane a t"
      using deallocate_array_lane [OF s, of a p] by blast
    have mem: "(p, s) \<in> set out" and p1: "paired (h, a1) (remove1 (p, s) out) cs"
      using Cons.prems(2) Deallocate a1(1) by simp_all
    have cp: "cls p = Some s"
      using outs mem by blast
    have o1: "\<forall>q t. (q, t) \<in> set (remove1 (p, s) out) \<longrightarrow> cls q = Some t"
      using outs notin_set_remove1 by fast
    have l1: "\<forall>t. \<forall>q \<in> set (lane a1 t). cls q = Some t"
    proof (intro allI ballI)
      fix t q assume q: "q \<in> set (lane a1 t)"
      show "cls q = Some t"
      proof (cases "t = s")
        case True
        with q a1(2) have "q = p \<or> q \<in> set (lane a s)" by simp
        with lanes cp True show ?thesis by blast
      next
        case False
        with q a1(3) have "q \<in> set (lane a t)" by simp
        with lanes show ?thesis by blast
      qed
    qed
    obtain h' a' cls' where r: "run_calls (h, a1) cs = Inr (h', a')"
        "map_le cls cls'"
        "\<forall>t. \<forall>p \<in> set (lane a' t). cls' p = Some t"
        "dom cls' \<subseteq> set (live h')"
        "\<forall>p s. Deallocate p s \<in> set cs \<longrightarrow> cls' p = Some s"
      using Cons.IH [OF cs p1 o1 l1 doms] by blast
    have run: "run_calls (h, a) (c # cs) = Inr (h', a')"
      using Deallocate a1(1) r(1) by simp
    have "cls' p = Some s"
      using cp r(2) by (auto simp: map_le_def dom_def)
    then have ds: "\<forall>q t. Deallocate q t \<in> set (c # cs) \<longrightarrow> cls' q = Some t"
      using r(5) Deallocate by auto
    show ?thesis
      by (rule exI [of _ h'], rule exI [of _ a'], rule exI [of _ cls'])
         (intro conjI run r(2) r(3) r(4) ds)
  qed
qed

text \<open>
  C3 (lane isolation). Run on a new allocator any sequence of calls with element sizes
  \<open>\<ge> 1\<close> in which every \<open>deallocate_array\<close> call passes a checked-out buffer with the
  element size it was allocated under, and then call \<open>allocate_array\<close> with size \<open>s2\<close>.
  The run and the allocation succeed, and the pointer returned is none of the buffers
  that were passed to \<open>deallocate_array\<close> with a size \<open>s1 \<noteq> s2\<close>. The lane is a function
  of the element size alone: a \<open>deallocate_array\<close> of any pointer under another size
  \<open>s1\<close> changes neither the lane of \<open>s2\<close> nor the heap and pointer that
  \<open>allocate_array\<close> with \<open>s2\<close> returns.
\<close>

theorem lane_isolation:
  assumes "\<forall>c \<in> set cs. 0 < call_size c"
    and "paired (h0, FixedArrayAllocator_init n) [] cs"
    and "0 < s2"
  shows "\<exists>h a h' a' r.
            run_calls (h0, FixedArrayAllocator_init n) cs = Inr (h, a)
          \<and> allocate_array h a s2 = Inr (h', a', r)
          \<and> (\<forall>buf s1. Deallocate buf s1 \<in> set cs \<longrightarrow> s1 \<noteq> s2 \<longrightarrow> r \<noteq> buf)
          \<and> (\<forall>buf s1. 0 < s1 \<longrightarrow> s1 \<noteq> s2 \<longrightarrow>
                (\<exists>a1 a1'. deallocate_array a buf s1 = Inr a1
                   \<and> lane a1 s2 = lane a s2
                   \<and> allocate_array h a1 s2 = Inr (h', a1', r)))"
proof -
  have o0: "\<forall>p s. (p, s) \<in> set [] \<longrightarrow> Map.empty p = Some s" by simp
  have l0: "\<forall>t. \<forall>p \<in> set (lane (FixedArrayAllocator_init n) t). Map.empty p = Some t"
    by (simp add: lane_init)
  have d0: "dom (Map.empty :: addr \<Rightarrow> uint option) \<subseteq> set (live h0)" by simp
  obtain h a cls where r: "run_calls (h0, FixedArrayAllocator_init n) cs = Inr (h, a)"
      "\<forall>t. \<forall>p \<in> set (lane a t). cls p = Some t"
      "dom cls \<subseteq> set (live h)"
      "\<forall>p s. Deallocate p s \<in> set cs \<longrightarrow> cls p = Some s"
    using paired_invariant [OF assms(1) assms(2) o0 l0 d0] by blast
  have dealloc: "\<exists>a1. deallocate_array a buf s1 = Inr a1 \<and> lane a1 s2 = lane a s2
                    \<and> m_array_length a1 = m_array_length a"
    if "0 < s1" "s1 \<noteq> s2" for buf s1
    using deallocate_array_lane [OF that(1), of a buf] that(2) by metis
  show ?thesis
  proof (cases "lane a s2")
    case Nil
    let ?p = "64 * (heap_end h div 64 + 1)"
    let ?h' = "h @ [(?p, unat (m_array_length a * s2))]"
    have fresh: "\<exists>b'. allocate_array h b s2 = Inr (?h', b', ?p)"
      if "lane b s2 = []" "m_array_length b = m_array_length a" for b
      using allocate_array_fresh_lane [OF assms(3) that(1), of h] that(2) by auto
    obtain a' where a': "allocate_array h a s2 = Inr (?h', a', ?p)"
      using fresh [of a] Nil by blast
    have ne: "\<forall>buf s1. Deallocate buf s1 \<in> set cs \<longrightarrow> s1 \<noteq> s2 \<longrightarrow> ?p \<noteq> buf"
    proof (intro allI impI)
      fix buf s1 assume "Deallocate buf s1 \<in> set cs"
      with r(4) have "buf \<in> dom cls" by blast
      with r(3) have "buf \<in> set (live h)" by blast
      with fresh_not_live [of h] show "?p \<noteq> buf" by blast
    qed
    have iso: "\<forall>buf s1. 0 < s1 \<longrightarrow> s1 \<noteq> s2 \<longrightarrow>
                (\<exists>a1 a1'. deallocate_array a buf s1 = Inr a1
                   \<and> lane a1 s2 = lane a s2
                   \<and> allocate_array h a1 s2 = Inr (?h', a1', ?p))"
    proof (intro allI impI)
      fix buf s1 assume s1: "0 < s1" "s1 \<noteq> s2"
      obtain a1 where a1: "deallocate_array a buf s1 = Inr a1" "lane a1 s2 = lane a s2"
          "m_array_length a1 = m_array_length a"
        using dealloc [OF s1, of buf] by blast
      from fresh [of a1] a1 Nil
      show "\<exists>a1 a1'. deallocate_array a buf s1 = Inr a1
                   \<and> lane a1 s2 = lane a s2
                   \<and> allocate_array h a1 s2 = Inr (?h', a1', ?p)" by auto
    qed
    show ?thesis
      by (rule exI [of _ h], rule exI [of _ a], rule exI [of _ ?h'], rule exI [of _ a'],
          rule exI [of _ ?p]) (intro conjI r(1) a' ne iso)
  next
    case (Cons p rest)
    have popped: "\<exists>b'. allocate_array h b s2 = Inr (h, b', p)" if "lane b s2 = lane a s2" for b
      using allocate_array_pop_lane [OF assms(3), of b p rest h] that Cons by auto
    obtain a' where a': "allocate_array h a s2 = Inr (h, a', p)"
      using popped [of a] by blast
    have cp: "cls p = Some s2"
      using r(2) Cons by auto
    have ne: "\<forall>buf s1. Deallocate buf s1 \<in> set cs \<longrightarrow> s1 \<noteq> s2 \<longrightarrow> p \<noteq> buf"
    proof (intro allI impI)
      fix buf s1 assume "Deallocate buf s1 \<in> set cs" and ne: "s1 \<noteq> s2"
      with r(4) have "cls buf = Some s1" by blast
      with cp ne show "p \<noteq> buf" by auto
    qed
    have iso: "\<forall>buf s1. 0 < s1 \<longrightarrow> s1 \<noteq> s2 \<longrightarrow>
                (\<exists>a1 a1'. deallocate_array a buf s1 = Inr a1
                   \<and> lane a1 s2 = lane a s2
                   \<and> allocate_array h a1 s2 = Inr (h, a1', p))"
    proof (intro allI impI)
      fix buf s1 assume s1: "0 < s1" "s1 \<noteq> s2"
      obtain a1 where a1: "deallocate_array a buf s1 = Inr a1" "lane a1 s2 = lane a s2"
        using dealloc [OF s1, of buf] by blast
      from popped [OF a1(2)] a1
      show "\<exists>a1 a1'. deallocate_array a buf s1 = Inr a1
                   \<and> lane a1 s2 = lane a s2
                   \<and> allocate_array h a1 s2 = Inr (h, a1', p)" by auto
    qed
    show ?thesis
      by (rule exI [of _ h], rule exI [of _ a], rule exI [of _ h], rule exI [of _ a'],
          rule exI [of _ p]) (intro conjI r(1) a' ne iso)
  qed
qed

theorem lane_isolation_witness:
  "0 < call_size (Allocate 4) \<and> 0 < call_size (Allocate 8)
   \<and> 0 < call_size (Deallocate 64 4) \<and> 0 < call_size (Deallocate 512 8)
   \<and> paired ([], FixedArrayAllocator_init 100) []
        [Allocate 4, Allocate 8, Deallocate 64 4, Deallocate 512 8]
   \<and> 0 < (8::uint) \<and> (4::uint) \<noteq> 8
   \<and> (\<exists>h a h' a' r.
          run_calls ([], FixedArrayAllocator_init 100)
            [Allocate 4, Allocate 8, Deallocate 64 4, Deallocate 512 8] = Inr (h, a)
        \<and> allocate_array h a 8 = Inr (h', a', r)
        \<and> r \<noteq> 64)"
proof -
  let ?cs = "[Allocate 4, Allocate 8, Deallocate 64 4, Deallocate 512 8]"
  have pre: "\<forall>c \<in> set ?cs. 0 < call_size c" by simp
  have pos: "0 < (8::uint)" by simp
  have ne: "(4::uint) \<noteq> 8" by simp
  have pr: "paired ([], FixedArrayAllocator_init 100) [] ?cs"
    by code_simp
  have d: "Deallocate 64 4 \<in> set ?cs" by simp
  from lane_isolation [OF pre pr pos] obtain h a h' a' r where
      1: "run_calls ([], FixedArrayAllocator_init 100) ?cs = Inr (h, a)"
         "allocate_array h a 8 = Inr (h', a', r)"
         "\<forall>buf s1. Deallocate buf s1 \<in> set ?cs \<longrightarrow> s1 \<noteq> 8 \<longrightarrow> r \<noteq> buf"
    by blast
  from 1(3) d ne have "r \<noteq> 64" by blast
  with 1(1,2) pr pos ne show ?thesis by auto
qed

text \<open>
  The run of the witness, evaluated: both buffers are back in their own lanes and
  \<open>allocate_array\<close> with size 8 returns the buffer of size 8. A sequence that returns the
  buffer of size 4 under size 8 as well does not keep the caller's obligation.
\<close>

lemma paired_example_run:
  "run_calls ([], FixedArrayAllocator_init 100)
     [Allocate 4, Allocate 8, Deallocate 64 4, Deallocate 512 8]
     = Inr ([(64, 400), (512, 800)],
            \<lparr>m_all_pointers = [64, 512],
             m_pointer_stacks = [[], [], [], [64], [], [], [], [512]],
             m_array_length = 100\<rparr>)
   \<and> allocate_array [(64, 400), (512, 800)]
        \<lparr>m_all_pointers = [64, 512],
         m_pointer_stacks = [[], [], [], [64], [], [], [], [512]],
         m_array_length = 100\<rparr> 8
     = Inr ([(64, 400), (512, 800)],
            \<lparr>m_all_pointers = [64, 512],
             m_pointer_stacks = [[], [], [], [64], [], [], [], []],
             m_array_length = 100\<rparr>, 512)"
  by code_simp

lemma paired_rejects_other_size:
  "\<not> paired ([], FixedArrayAllocator_init 100) []
        [Allocate 4, Deallocate 64 4, Deallocate 64 8]"
  by code_simp

section \<open>Scoped allocations\<close>

lemma ScopedAllocation_dtor_null:
  "m_ptr x = nullptr \<Longrightarrow> ScopedAllocation_dtor st x = Inr st"
  by (simp add: ScopedAllocation_dtor_def)

lemma ScopedAllocation_dtor_holding:
  assumes "m_ptr x \<noteq> nullptr" and "0 < m_element_size x"
  shows "\<exists>a'. deallocate_array (st (m_allocator x)) (m_ptr x) (m_element_size x) = Inr a'
           \<and> ScopedAllocation_dtor st x = Inr (st(m_allocator x := a'))
           \<and> lane a' (m_element_size x) = m_ptr x # lane (st (m_allocator x)) (m_element_size x)
           \<and> (\<forall>t. t \<noteq> m_element_size x \<longrightarrow> lane a' t = lane (st (m_allocator x)) t)
           \<and> m_all_pointers a' = m_all_pointers (st (m_allocator x))
           \<and> m_array_length a' = m_array_length (st (m_allocator x))"
proof -
  obtain a' where a': "deallocate_array (st (m_allocator x)) (m_ptr x) (m_element_size x) = Inr a'"
      "lane a' (m_element_size x) = m_ptr x # lane (st (m_allocator x)) (m_element_size x)"
      "\<forall>t. t \<noteq> m_element_size x \<longrightarrow> lane a' t = lane (st (m_allocator x)) t"
      "m_all_pointers a' = m_all_pointers (st (m_allocator x))"
      "m_array_length a' = m_array_length (st (m_allocator x))"
    using deallocate_array_lane [OF assms(2), of "st (m_allocator x)" "m_ptr x"] by blast
  have "ScopedAllocation_dtor st x = Inr (st(m_allocator x := a'))"
    using assms(1) a'(1) by (simp add: ScopedAllocation_dtor_def)
  with a' show ?thesis by blast
qed

text \<open>
  C8 (move construction). Moving a handle that holds a buffer (its pointer is not null,
  its element size is \<open>\<ge> 1\<close>) gives a target with the same pointer, element size and
  allocator, and leaves the source with a null pointer. Destroying the source changes
  nothing in any store. Destroying the target pushes the buffer once on the lane of its
  recorded element size in its allocator and changes no other lane, and destroying the
  source after that changes nothing more.
\<close>

theorem scoped_move_transfer:
  assumes "m_ptr x \<noteq> nullptr" and "0 < m_element_size x"
  shows "\<exists>y x' a'.
            ScopedAllocation_move x = (y, x')
          \<and> m_ptr y = m_ptr x \<and> m_element_size y = m_element_size x
          \<and> m_allocator y = m_allocator x
          \<and> m_ptr x' = nullptr
          \<and> ScopedAllocation_dtor st x' = Inr st
          \<and> deallocate_array (st (m_allocator x)) (m_ptr x) (m_element_size x) = Inr a'
          \<and> ScopedAllocation_dtor st y = Inr (st(m_allocator x := a'))
          \<and> ScopedAllocation_dtor (st(m_allocator x := a')) x' = Inr (st(m_allocator x := a'))
          \<and> lane a' (m_element_size x) = m_ptr x # lane (st (m_allocator x)) (m_element_size x)
          \<and> (\<forall>t. t \<noteq> m_element_size x \<longrightarrow> lane a' t = lane (st (m_allocator x)) t)
          \<and> m_all_pointers a' = m_all_pointers (st (m_allocator x))"
proof -
  let ?y = "\<lparr>m_allocator = m_allocator x, m_ptr = m_ptr x, m_element_size = m_element_size x\<rparr>"
  let ?x' = "x\<lparr>m_ptr := nullptr\<rparr>"
  have mv: "ScopedAllocation_move x = (?y, ?x')"
    by (simp add: ScopedAllocation_move_def)
  have y: "m_ptr ?y \<noteq> nullptr" "0 < m_element_size ?y"
    using assms by simp_all
  have nul: "ScopedAllocation_dtor s ?x' = Inr s" for s
    by (simp add: ScopedAllocation_dtor_null)
  from ScopedAllocation_dtor_holding [OF y, of st] mv nul show ?thesis
    by auto
qed

theorem scoped_move_transfer_witness:
  "m_ptr (ScopedAllocation_init 0 64 4) \<noteq> nullptr
   \<and> 0 < m_element_size (ScopedAllocation_init 0 64 4)
   \<and> (\<exists>y x' a'. ScopedAllocation_move (ScopedAllocation_init 0 64 4) = (y, x')
          \<and> m_ptr y = 64 \<and> m_element_size y = 4 \<and> m_ptr x' = nullptr
          \<and> ScopedAllocation_dtor (\<lambda>r. FixedArrayAllocator_init 100) x'
               = Inr (\<lambda>r. FixedArrayAllocator_init 100)
          \<and> ScopedAllocation_dtor (\<lambda>r. FixedArrayAllocator_init 100) y
               = Inr ((\<lambda>r. FixedArrayAllocator_init 100)(0 := a'))
          \<and> lane a' 4 = [64])"
proof -
  have p: "m_ptr (ScopedAllocation_init 0 64 4) \<noteq> nullptr"
    by (simp add: ScopedAllocation_init_def nullptr_def)
  have s: "0 < m_element_size (ScopedAllocation_init 0 64 4)"
    by (simp add: ScopedAllocation_init_def)
  have l: "lane (FixedArrayAllocator_init 100) 4 = []"
    by (simp add: lane_def FixedArrayAllocator_init_def)
  have f: "m_ptr (ScopedAllocation_init 0 64 4) = 64"
      "m_element_size (ScopedAllocation_init 0 64 4) = 4"
      "m_allocator (ScopedAllocation_init 0 64 4) = 0"
    by (simp_all add: ScopedAllocation_init_def)
  from scoped_move_transfer [OF p s, of "\<lambda>r. FixedArrayAllocator_init 100"]
  show ?thesis unfolding f using p s l unfolding f by auto
qed

text \<open>
  C10 (move assignment). Move-assigning \<open>other\<close> onto a different handle \<open>this\<close> that
  holds a buffer first pushes the buffer of \<open>this\<close> once on the lane of its recorded
  element size in its allocator, changing no other lane; then \<open>this\<close> has the pointer,
  element size and allocator of \<open>other\<close>, and \<open>other\<close> has a null pointer, so its
  destructor changes nothing. When \<open>other\<close> held a buffer, destroying the new \<open>this\<close>
  pushes that buffer once on the lane of its size in the allocator of \<open>other\<close>.
\<close>

theorem scoped_move_assign:
  assumes "m_ptr this \<noteq> nullptr" and "0 < m_element_size this"
  shows "\<exists>a' this' other'.
            deallocate_array (st (m_allocator this)) (m_ptr this) (m_element_size this) = Inr a'
          \<and> lane a' (m_element_size this)
               = m_ptr this # lane (st (m_allocator this)) (m_element_size this)
          \<and> (\<forall>t. t \<noteq> m_element_size this \<longrightarrow> lane a' t = lane (st (m_allocator this)) t)
          \<and> m_all_pointers a' = m_all_pointers (st (m_allocator this))
          \<and> ScopedAllocation_move_assign st this other
               = Inr (st(m_allocator this := a'), this', other')
          \<and> m_ptr this' = m_ptr other \<and> m_element_size this' = m_element_size other
          \<and> m_allocator this' = m_allocator other
          \<and> m_ptr other' = nullptr
          \<and> (\<forall>st1. ScopedAllocation_dtor st1 other' = Inr st1)
          \<and> (m_ptr other \<noteq> nullptr \<and> 0 < m_element_size other \<longrightarrow>
               (\<forall>st1. \<exists>b'.
                  deallocate_array (st1 (m_allocator other)) (m_ptr other) (m_element_size other)
                    = Inr b'
                \<and> ScopedAllocation_dtor st1 this' = Inr (st1(m_allocator other := b'))
                \<and> lane b' (m_element_size other)
                     = m_ptr other # lane (st1 (m_allocator other)) (m_element_size other)))"
proof -
  let ?this' = "\<lparr>m_allocator = m_allocator other, m_ptr = m_ptr other,
                  m_element_size = m_element_size other\<rparr>"
  let ?other' = "other\<lparr>m_ptr := nullptr\<rparr>"
  obtain a' where a': "deallocate_array (st (m_allocator this)) (m_ptr this) (m_element_size this) = Inr a'"
      "ScopedAllocation_dtor st this = Inr (st(m_allocator this := a'))"
      "lane a' (m_element_size this) = m_ptr this # lane (st (m_allocator this)) (m_element_size this)"
      "\<forall>t. t \<noteq> m_element_size this \<longrightarrow> lane a' t = lane (st (m_allocator this)) t"
      "m_all_pointers a' = m_all_pointers (st (m_allocator this))"
    using ScopedAllocation_dtor_holding [OF assms, of st] by blast
  have asg: "ScopedAllocation_move_assign st this other
               = Inr (st(m_allocator this := a'), ?this', ?other')"
    using a'(2) by (simp add: ScopedAllocation_move_assign_def ScopedAllocation_move_def)
  have nul: "\<forall>st1. ScopedAllocation_dtor st1 ?other' = Inr st1"
    by (simp add: ScopedAllocation_dtor_null)
  have later: "m_ptr other \<noteq> nullptr \<and> 0 < m_element_size other \<longrightarrow>
               (\<forall>st1. \<exists>b'.
                  deallocate_array (st1 (m_allocator other)) (m_ptr other) (m_element_size other)
                    = Inr b'
                \<and> ScopedAllocation_dtor st1 ?this' = Inr (st1(m_allocator other := b'))
                \<and> lane b' (m_element_size other)
                     = m_ptr other # lane (st1 (m_allocator other)) (m_element_size other))"
  proof (intro impI allI)
    fix st1
    assume "m_ptr other \<noteq> nullptr \<and> 0 < m_element_size other"
    then have h: "m_ptr ?this' \<noteq> nullptr" "0 < m_element_size ?this'" by simp_all
    from ScopedAllocation_dtor_holding [OF h, of st1]
    show "\<exists>b'. deallocate_array (st1 (m_allocator other)) (m_ptr other) (m_element_size other)
                    = Inr b'
                \<and> ScopedAllocation_dtor st1 ?this' = Inr (st1(m_allocator other := b'))
                \<and> lane b' (m_element_size other)
                     = m_ptr other # lane (st1 (m_allocator other)) (m_element_size other)"
      by auto
  qed
  show ?thesis
    apply (rule exI [of _ a'])
    apply (rule exI [of _ ?this'])
    apply (rule exI [of _ ?other'])
    using a'(1,3,4,5) asg nul later by simp
qed

theorem scoped_move_assign_witness:
  "m_ptr (ScopedAllocation_init 0 64 4) \<noteq> nullptr
   \<and> 0 < m_element_size (ScopedAllocation_init 0 64 4)
   \<and> (\<exists>a' this' other'.
          ScopedAllocation_move_assign (\<lambda>r. FixedArrayAllocator_init 100)
              (ScopedAllocation_init 0 64 4) (ScopedAllocation_init 1 512 8)
            = Inr ((\<lambda>r. FixedArrayAllocator_init 100)(0 := a'), this', other')
        \<and> lane a' 4 = [64]
        \<and> m_ptr this' = 512 \<and> m_element_size this' = 8 \<and> m_allocator this' = 1
        \<and> m_ptr other' = nullptr)"
proof -
  have p: "m_ptr (ScopedAllocation_init 0 64 4) \<noteq> nullptr"
    by (simp add: ScopedAllocation_init_def nullptr_def)
  have s: "0 < m_element_size (ScopedAllocation_init 0 64 4)"
    by (simp add: ScopedAllocation_init_def)
  have l: "lane (FixedArrayAllocator_init 100) 4 = []"
    by (simp add: lane_def FixedArrayAllocator_init_def)
  have f: "m_ptr (ScopedAllocation_init 0 64 4) = 64"
      "m_element_size (ScopedAllocation_init 0 64 4) = 4"
      "m_allocator (ScopedAllocation_init 0 64 4) = 0"
      "m_ptr (ScopedAllocation_init 1 512 8) = 512"
      "m_element_size (ScopedAllocation_init 1 512 8) = 8"
      "m_allocator (ScopedAllocation_init 1 512 8) = 1"
    by (simp_all add: ScopedAllocation_init_def)
  from scoped_move_assign [OF p s, of "\<lambda>r. FixedArrayAllocator_init 100" "ScopedAllocation_init 1 512 8"]
  obtain a' this' other' where
    1: "lane a' (m_element_size (ScopedAllocation_init 0 64 4))
          = m_ptr (ScopedAllocation_init 0 64 4)
            # lane (FixedArrayAllocator_init 100) (m_element_size (ScopedAllocation_init 0 64 4))"
       "ScopedAllocation_move_assign (\<lambda>r. FixedArrayAllocator_init 100)
              (ScopedAllocation_init 0 64 4) (ScopedAllocation_init 1 512 8)
            = Inr ((\<lambda>r. FixedArrayAllocator_init 100)
                     (m_allocator (ScopedAllocation_init 0 64 4) := a'), this', other')"
       "m_ptr this' = m_ptr (ScopedAllocation_init 1 512 8)"
       "m_element_size this' = m_element_size (ScopedAllocation_init 1 512 8)"
       "m_allocator this' = m_allocator (ScopedAllocation_init 1 512 8)"
       "m_ptr other' = nullptr"
    by blast
  from 1 show ?thesis unfolding f l using p s unfolding f by blast
qed

end
